theory Spec2Isabelle
  imports
    Complex_Main
    "HOL-Library.AList"
    "HOL-Library.Char_ord"
    "HOL-Library.List_Lexorder"
    "HOL-Library.Multiset"
begin

section \<open>Python values shared by both scripts\<close>

text \<open>
  Exceptions are values. Every exception carries its message, which is what
  \<^verbatim>\<open>str(e)\<close> returns. A function that can raise returns \<open>py_error + 'a\<close>,
  with \<open>Inl\<close> for the exception.
\<close>

datatype py_error =
    TypeError string
  | IndexError string
  | ValueError string
  | RequestException string

fun str_of_error :: "py_error \<Rightarrow> string" where
  "str_of_error (TypeError m) = m"
| "str_of_error (IndexError m) = m"
| "str_of_error (ValueError m) = m"
| "str_of_error (RequestException m) = m"

text \<open>
  A Python value that is either a \<^verbatim>\<open>str\<close> or \<^verbatim>\<open>None\<close>: what
  \<^verbatim>\<open>match.group(i)\<close> returns. Text is a list of 8-bit characters, the UTF-8
  bytes of the Python string. Every character the scripts test for is ASCII, and the
  tests they make (membership of a character, a prefix or a suffix, a length greater
  than one for a text that ends with a slash, the lexicographic order) give the same
  answer on the bytes as on the code points. \<open>lower\<close> changes the ASCII letters
  only; the suffixes it is used with are ASCII.
\<close>

type_synonym pystr = "string option"

definition truthy :: "pystr \<Rightarrow> bool" where
  "truthy v = (case v of None \<Rightarrow> False | Some s \<Rightarrow> s \<noteq> [])"

definition startswith :: "string \<Rightarrow> string \<Rightarrow> bool" where
  "startswith s pre = (take (length pre) s = pre)"

definition endswith :: "string \<Rightarrow> string \<Rightarrow> bool" where
  "endswith s suf = (length suf \<le> length s \<and> drop (length s - length suf) s = suf)"

definition lower_char :: "char \<Rightarrow> char" where
  "lower_char c =
     (if CHR ''A'' \<le> c \<and> c \<le> CHR ''Z'' then char_of (of_char c + (32::nat)) else c)"

definition lower :: "string \<Rightarrow> string" where
  "lower s = map lower_char s"

definition lstrip :: "char \<Rightarrow> string \<Rightarrow> string" where
  "lstrip ch s = dropWhile (\<lambda>c. c = ch) s"

definition rstrip :: "char \<Rightarrow> string \<Rightarrow> string" where
  "rstrip ch s = rev (dropWhile (\<lambda>c. c = ch) (rev s))"


section \<open>extract\_routes.py: the validity filter\<close>

definition invalid_paths :: "string list" where
  "invalid_paths = [''/'', ''//'', ''.'', ''./'']"

definition static_extensions :: "string list" where
  "static_extensions =
     [''.png'', ''.jpg'', ''.jpeg'', ''.gif'', ''.svg'', ''.ico'', ''.webp'',
      ''.css'', ''.scss'', ''.less'',
      ''.js'', ''.jsx'', ''.ts'', ''.tsx'',
      ''.woff'', ''.woff2'', ''.ttf'', ''.eot'', ''.otf'',
      ''.mp3'', ''.mp4'', ''.avi'', ''.mov'', ''.flv'', ''.wmv'']"

text \<open>The three characters of the Python literal \<^verbatim>\<open>'./\\'\<close>: dot, slash, backslash.\<close>

definition dot_slash_chars :: "char list" where
  "dot_slash_chars = [CHR ''.'', CHR ''/'', CHR 0x5C]"

text \<open>
  The file-name test of \<^verbatim>\<open>is_valid_route\<close> is
  \<^verbatim>\<open>re.search(r'/[^/]+\.[a-zA-Z0-9]{2,6}(?:\?.*)?$', route_path)\<close>.
  The search succeeds iff the pattern matches at some position, so the matcher below
  tries every position and every split, piece by piece:
  \<^item> \<open>at_end\<close> is \<^verbatim>\<open>$\<close>: the end of the string, or just before a final newline;
  \<^item> \<open>query_tail\<close> is \<^verbatim>\<open>(?:\?.*)?$\<close>, where \<^verbatim>\<open>.\<close> matches no newline;
  \<^item> \<open>extension_tail\<close> is \<^verbatim>\<open>[a-zA-Z0-9]{2,6}(?:\?.*)?$\<close>;
  \<^item> \<open>segment_tail\<close> is \<^verbatim>\<open>[^/]+\.[a-zA-Z0-9]{2,6}(?:\?.*)?$\<close>;
  \<^item> \<open>file_pattern_search\<close> is the whole search.
\<close>

definition alnum :: "char \<Rightarrow> bool" where
  "alnum c \<longleftrightarrow>
     (CHR ''a'' \<le> c \<and> c \<le> CHR ''z'') \<or> (CHR ''A'' \<le> c \<and> c \<le> CHR ''Z'')
       \<or> (CHR ''0'' \<le> c \<and> c \<le> CHR ''9'')"

definition at_end :: "string \<Rightarrow> bool" where
  "at_end r \<longleftrightarrow> r = [] \<or> r = [CHR 0x0A]"

definition query_tail :: "string \<Rightarrow> bool" where
  "query_tail r \<longleftrightarrow>
     at_end r \<or>
     (case r of
        [] \<Rightarrow> False
      | c # t \<Rightarrow> c = CHR ''?'' \<and> at_end (dropWhile (\<lambda>d. d \<noteq> CHR 0x0A) t))"

definition extension_tail :: "string \<Rightarrow> bool" where
  "extension_tail r \<longleftrightarrow>
     list_ex (\<lambda>k. k \<le> length r \<and> list_all alnum (take k r) \<and> query_tail (drop k r))
       [2, 3, 4, 5, 6]"

definition segment_tail :: "string \<Rightarrow> bool" where
  "segment_tail r \<longleftrightarrow>
     list_ex (\<lambda>j. list_all (\<lambda>c. c \<noteq> CHR ''/'') (take j r) \<and> r ! j = CHR ''.''
                  \<and> extension_tail (drop (Suc j) r))
       [1 ..< length r]"

definition file_pattern_search :: "string \<Rightarrow> bool" where
  "file_pattern_search s \<longleftrightarrow>
     list_ex (\<lambda>i. s ! i = CHR ''/'' \<and> segment_tail (drop (Suc i) s)) [0 ..< length s]"

text \<open>
  \<^verbatim>\<open>is_valid_route(route_path)\<close>. With \<^verbatim>\<open>None\<close> the membership test
  \<^verbatim>\<open>route_path in invalid_paths\<close> is false and the next statement,
  \<^verbatim>\<open>all(c in './\\' for c in route_path)\<close>, iterates over \<^verbatim>\<open>None\<close> and
  raises \<^verbatim>\<open>TypeError\<close> with the message
  \<^verbatim>\<open>'NoneType' object is not iterable\<close>.
\<close>

definition none_not_iterable :: string where
  "none_not_iterable = CHR 0x27 # ''NoneType'' @ CHR 0x27 # '' object is not iterable''"

definition is_valid_route :: "pystr \<Rightarrow> py_error + bool" where
  "is_valid_route route_path =
     (case route_path of
        None \<Rightarrow> Inl (TypeError none_not_iterable)
      | Some p \<Rightarrow>
          Inr (if p \<in> set invalid_paths then False
               else if list_all (\<lambda>c. c \<in> set dot_slash_chars) p then False
               else if list_ex (\<lambda>ext. endswith (lower p) ext) static_extensions then False
               else if file_pattern_search p then False
               else True))"


section \<open>extract\_routes.py: the pattern catalog and the extractor\<close>

text \<open>
  The catalog of \<^verbatim>\<open>extract_routes_from_js\<close>: three lists of regular expressions.
  The expressions are data handed to \<^verbatim>\<open>re.finditer\<close>; each one is named here.
  \<^item> \<open>VuePath\<close>: \<^verbatim>\<open>path:\s*[\'\"](.*?)[\'\"]\<close>
  \<^item> \<open>VueNamed\<close>: \<^verbatim>\<open>name:\s*[\'\"](.*?)[\'"].*?path:\s*[\'\"](.*?)[\'"]\<close> (two groups)
  \<^item> \<open>VueDynamic\<close>: \<^verbatim>\<open>path:\s*[\'"](.*?/:\w+.*?)[\'"]*\<close>
  \<^item> \<open>ReactRoutePath\<close>: \<^verbatim>\<open><Route\s+path=[\'"](.*?)[\'"]\s*\<close>
  \<^item> \<open>ReactNavigate\<close>: \<^verbatim>\<open>(?:useNavigate|history\.push)\([\'\"](.*?)[\'\"]\)\<close>
  \<^item> \<open>ReactLinkTo\<close>: \<^verbatim>\<open><Link\s+to=[\'"](.*?)[\'"]\s*\<close>
  \<^item> \<open>GeneralEndpoint\<close>: \<^verbatim>\<open>(?:url|endpoint|api):\s*[\'"](/[^\'"]*?)[\'"]\s*\<close>
  \<^item> \<open>GeneralRequest\<close>: \<^verbatim>\<open>(?:axios|fetch)\([\'\"]((?:/|https?://)[^\'\"]*?)[\'\"]\<close>
  \<^item> \<open>GeneralLiteral\<close>: \<^verbatim>\<open>[\'"](/[\w\-./]+?)[\'"]\<close>
\<close>

datatype pattern =
    VuePath | VueNamed | VueDynamic
  | ReactRoutePath | ReactNavigate | ReactLinkTo
  | GeneralEndpoint | GeneralRequest | GeneralLiteral

definition vue_patterns :: "pattern list" where
  "vue_patterns = [VuePath, VueNamed, VueDynamic]"

definition react_patterns :: "pattern list" where
  "react_patterns = [ReactRoutePath, ReactNavigate, ReactLinkTo]"

definition general_patterns :: "pattern list" where
  "general_patterns = [GeneralEndpoint, GeneralRequest, GeneralLiteral]"

text \<open>
  The route types are the three labels \<^verbatim>\<open>'Vue...'\<close>, \<^verbatim>\<open>'React...'\<close> and the
  general one that \<^verbatim>\<open>extract_with_patterns\<close> is called with.
\<close>

datatype route_type = VueRoute | ReactRoute | GeneralRoute

text \<open>
  A route is the dictionary the extractor appends. The key \<^verbatim>\<open>'name'\<close> may be
  missing (\<open>None\<close>); when it is present its value is whatever \<^verbatim>\<open>match.group(1)\<close>
  was.
\<close>

record route =
  rtype :: route_type
  name :: "pystr option"
  path :: string
  source_file :: string

text \<open>
  A match object is the tuple \<^verbatim>\<open>match.groups()\<close>; \<^verbatim>\<open>match.group(i)\<close> is its
  element \<open>i - 1\<close>. The regular-expression engine is the library's: the extractor takes
  \<^verbatim>\<open>re.finditer\<close> as the parameter \<open>finditer\<close>.
\<close>

type_synonym match = "pystr list"

definition scheme_prefixes :: "string list" where
  "scheme_prefixes = [''http://'', ''https://'', ''ws://'', ''wss://'']"

definition forward_slashes :: "string \<Rightarrow> string" where
  "forward_slashes s = map (\<lambda>c. if c = CHR 0x5C then CHR ''/'' else c) s"

text \<open>The body of the inner loop of \<^verbatim>\<open>extract_with_patterns\<close>, for one match.\<close>

definition add_match :: "string \<Rightarrow> route_type \<Rightarrow> match \<Rightarrow> route list \<Rightarrow> py_error + route list" where
  "add_match relative_path route_type m routes =
     (case m of
        [] \<Rightarrow> Inl (IndexError ''no such group'')
      | [route_path] \<Rightarrow>
          (case route_path of
             None \<Rightarrow> Inr routes
           | Some p \<Rightarrow>
               if p \<noteq> [] \<and> \<not> list_ex (startswith p) scheme_prefixes then
                 (case is_valid_route route_path of
                    Inl e \<Rightarrow> Inl e
                  | Inr ok \<Rightarrow>
                      if ok then
                        Inr (routes @ [\<lparr>rtype = route_type, name = None, path = p,
                                         source_file = forward_slashes relative_path\<rparr>])
                      else Inr routes)
               else Inr routes)
      | route_name # route_path # _ \<Rightarrow>
          (case is_valid_route route_path of
             Inl e \<Rightarrow> Inl e
           | Inr ok \<Rightarrow>
               (case route_path of
                  None \<Rightarrow> Inr routes
                | Some p \<Rightarrow>
                    if ok then
                      Inr (routes @ [\<lparr>rtype = route_type, name = Some route_name, path = p,
                                       source_file = forward_slashes relative_path\<rparr>])
                    else Inr routes)))"

fun add_matches :: "string \<Rightarrow> route_type \<Rightarrow> match list \<Rightarrow> route list \<Rightarrow> py_error + route list" where
  "add_matches relative_path route_type [] routes = Inr routes"
| "add_matches relative_path route_type (m # ms) routes =
     (case add_match relative_path route_type m routes of
        Inl e \<Rightarrow> Inl e
      | Inr routes' \<Rightarrow> add_matches relative_path route_type ms routes')"

fun extract_with_patterns ::
  "(pattern \<Rightarrow> string \<Rightarrow> match list) \<Rightarrow> string \<Rightarrow> string \<Rightarrow>
   pattern list \<Rightarrow> route_type \<Rightarrow> route list \<Rightarrow> py_error + route list" where
  "extract_with_patterns finditer content relative_path [] route_type routes = Inr routes"
| "extract_with_patterns finditer content relative_path (pat # pats) route_type routes =
     (case add_matches relative_path route_type (finditer pat content) routes of
        Inl e \<Rightarrow> Inl e
      | Inr routes' \<Rightarrow>
          extract_with_patterns finditer content relative_path pats route_type routes')"

text \<open>
  \<^verbatim>\<open>extract_routes_from_js\<close>, from the text of the file on: \<open>content\<close> is what was
  read, \<open>relative_path\<close> is \<^verbatim>\<open>os.path.relpath(file_path, base_dir)\<close>.
\<close>

definition extract_routes_from_js ::
  "(pattern \<Rightarrow> string \<Rightarrow> match list) \<Rightarrow> string \<Rightarrow> string \<Rightarrow> py_error + route list" where
  "extract_routes_from_js finditer content relative_path =
     (case extract_with_patterns finditer content relative_path vue_patterns VueRoute [] of
        Inl e \<Rightarrow> Inl e
      | Inr r1 \<Rightarrow>
          (case extract_with_patterns finditer content relative_path react_patterns ReactRoute r1 of
             Inl e \<Rightarrow> Inl e
           | Inr r2 \<Rightarrow>
               extract_with_patterns finditer content relative_path general_patterns
                 GeneralRoute r2))"

text \<open>
  The matches of the catalog on the one-line source text
  \<^verbatim>\<open>name: 'x', path: 'http://example.com/api'\<close>: \<open>VuePath\<close> matches once with the
  group \<^verbatim>\<open>http://example.com/api\<close>, \<open>VueNamed\<close> matches once with the groups
  \<^verbatim>\<open>x\<close> and \<^verbatim>\<open>http://example.com/api\<close>, and no other expression matches (the
  text has no \<^verbatim>\<open>/:\<close>, no \<^verbatim>\<open>api:\<close> and no quote followed by a slash).
\<close>

definition named_url_text :: string where
  "named_url_text =
     ''name: '' @ [CHR 0x27] @ ''x'' @ [CHR 0x27] @ '', path: '' @ [CHR 0x27]
       @ ''http://example.com/api'' @ [CHR 0x27]"

definition named_url_matches :: "pattern \<Rightarrow> string \<Rightarrow> match list" where
  "named_url_matches pat content =
     (if content = named_url_text \<and> pat = VuePath then [[Some ''http://example.com/api'']]
      else if content = named_url_text \<and> pat = VueNamed then
        [[Some ''x'', Some ''http://example.com/api'']]
      else [])"


section \<open>extract\_routes.py: normalisation and merging\<close>

text \<open>
  \<^verbatim>\<open>re.sub(r'/+', '/', path)\<close>: every maximal run of slashes is replaced by one
  slash.
\<close>

function collapse_slashes :: "string \<Rightarrow> string" where
  "collapse_slashes [] = []"
| "collapse_slashes (c # cs) =
     (if c = CHR ''/'' then CHR ''/'' # collapse_slashes (dropWhile (\<lambda>d. d = CHR ''/'') cs)
      else c # collapse_slashes cs)"
  by pat_completeness auto
termination
  by (relation "measure length") (auto simp: length_dropWhile_le less_Suc_eq_le)

definition normalize_path :: "string \<Rightarrow> string" where
  "normalize_path p =
     (let p1 = collapse_slashes p
      in if length p1 > 1 \<and> endswith p1 ''/'' then rstrip CHR ''/'' p1 else p1)"

text \<open>\<^verbatim>\<open>s.split(', ')\<close> and \<^verbatim>\<open>', '.join(xs)\<close>.\<close>

fun split_comma_space :: "string \<Rightarrow> string list" where
  "split_comma_space [] = [[]]"
| "split_comma_space [c] = [[c]]"
| "split_comma_space (c # d # ds) =
     (if c = CHR '','' \<and> d = CHR '' '' then [] # split_comma_space ds
      else (case split_comma_space (d # ds) of
              [] \<Rightarrow> [[c]]
            | w # ws \<Rightarrow> (c # w) # ws))"

fun join_comma_space :: "string list \<Rightarrow> string" where
  "join_comma_space [] = []"
| "join_comma_space [x] = x"
| "join_comma_space (x # y # ys) = x @ '', '' @ join_comma_space (y # ys)"

text \<open>
  \<^verbatim>\<open>unique_routes\<close> is a dictionary from the normalised path to the route kept for
  it; dictionaries keep insertion order, so it is an association list. One iteration
  of the loop of \<^verbatim>\<open>save_routes_to_file\<close> handles one route. The route objects of
  the input are distinct dictionaries, so updating the stored one in place changes no
  route that is still to come.
\<close>

type_synonym route_dict = "(string \<times> route) list"

definition merge_sources :: "route \<Rightarrow> string \<Rightarrow> route" where
  "merge_sources existing new_source =
     (let existing_sources = set (split_comma_space (source_file existing))
      in if new_source \<notin> existing_sources then
           existing\<lparr>source_file :=
             join_comma_space (sorted_list_of_set (insert new_source existing_sources))\<rparr>
         else existing)"

definition merge_name :: "route \<Rightarrow> route \<Rightarrow> route" where
  "merge_name existing r =
     (case name r of
        None \<Rightarrow> existing
      | Some n \<Rightarrow>
          (case name existing of
             None \<Rightarrow> existing\<lparr>name := Some n\<rparr>
           | Some old \<Rightarrow> if \<not> truthy old then existing\<lparr>name := Some n\<rparr> else existing))"

definition merge_route :: "route \<Rightarrow> route_dict \<Rightarrow> route_dict" where
  "merge_route r unique_routes =
     (let p = normalize_path (path r);
          r1 = r\<lparr>path := p\<rparr>
      in case map_of unique_routes p of
           None \<Rightarrow> AList.update p r1 unique_routes
         | Some existing \<Rightarrow>
             AList.update p (merge_name (merge_sources existing (source_file r1)) r1)
               unique_routes)"

text \<open>
  \<open>routes\<close> is the dictionary from file name to the routes found in that file, in
  insertion order. \<open>unique_routes_of\<close> is the state of \<^verbatim>\<open>unique_routes\<close> after the
  nested iteration and \<open>final_routes\<close> is the list that is written to the output file:
  \<^verbatim>\<open>sorted(unique_routes.values(), key=lambda x: x['path'])\<close>, a stable sort.
\<close>

definition unique_routes_of :: "(string \<times> route list) list \<Rightarrow> route_dict" where
  "unique_routes_of routes =
     fold (\<lambda>file_routes unique_routes. fold merge_route file_routes unique_routes)
       (map snd routes) []"

definition final_routes :: "(string \<times> route list) list \<Rightarrow> route list" where
  "final_routes routes = sort_key path (map snd (unique_routes_of routes))"


section \<open>test\_routes.py: probing\<close>

text \<open>
  The result dictionary of \<^verbatim>\<open>test_route\<close>. The key \<^verbatim>\<open>'error'\<close> is present
  only in the result built by the exception handler.
\<close>

record probe_result =
  url :: string
  status_code :: int
  content_length :: int
  response_time :: real
  error :: "string option"

text \<open>
  What the script reads from a \<^verbatim>\<open>requests\<close> response:
  \<^verbatim>\<open>response.status_code\<close>, \<^verbatim>\<open>response.headers.get('Content-Length')\<close>,
  \<^verbatim>\<open>response.content\<close> and \<^verbatim>\<open>response.elapsed.total_seconds()\<close>.
\<close>

record response =
  resp_status_code :: int
  resp_content_length_header :: "string option"
  resp_content :: string
  resp_elapsed_seconds :: real

text \<open>
  The library calls of \<^verbatim>\<open>test_route\<close> are its parameters, each returning an
  exception or a value:
  \<^item> \<open>urljoin\<close> is \<^verbatim>\<open>urllib.parse.urljoin\<close>;
  \<^item> \<open>requests_get\<close> is \<^verbatim>\<open>requests.get(url, timeout=10, verify=False)\<close>, the
    network included: a timeout, a refused connection, a DNS or a TLS failure is an
    exception;
  \<^item> \<open>int_of_str\<close> is \<^verbatim>\<open>int\<close> applied to the text of the length header.
\<close>

record library =
  urljoin :: "string \<Rightarrow> string \<Rightarrow> py_error + string"
  requests_get :: "string \<Rightarrow> py_error + response"
  int_of_str :: "string \<Rightarrow> py_error + int"

definition failure_result :: "string \<Rightarrow> py_error \<Rightarrow> probe_result" where
  "failure_result u e =
     \<lparr>url = u, status_code = 0, content_length = 0, response_time = 0,
      error = Some (str_of_error e)\<rparr>"

text \<open>
  \<^verbatim>\<open>test_route(base_url, path)\<close>. The URL is joined before the \<^verbatim>\<open>try\<close>
  statement, so an exception of \<open>urljoin\<close> leaves the function; every exception
  raised inside the \<^verbatim>\<open>try\<close> block is turned into a result.
\<close>

definition test_route :: "library \<Rightarrow> string \<Rightarrow> string \<Rightarrow> py_error + probe_result" where
  "test_route lib base_url p =
     (case urljoin lib (rstrip CHR ''/'' base_url @ ''/'') (lstrip CHR ''/'' p) of
        Inl e \<Rightarrow> Inl e
      | Inr u \<Rightarrow>
          Inr (case requests_get lib u of
                 Inl e \<Rightarrow> failure_result u e
               | Inr resp \<Rightarrow>
                   (case (case resp_content_length_header resp of
                            None \<Rightarrow> Inr (int (length (resp_content resp)))
                          | Some h \<Rightarrow> int_of_str lib h) of
                      Inl e \<Rightarrow> failure_result u e
                    | Inr n \<Rightarrow>
                        \<lparr>url = u, status_code = resp_status_code resp, content_length = n,
                         response_time = resp_elapsed_seconds resp, error = None\<rparr>)))"

text \<open>
  The probing loop of \<^verbatim>\<open>main\<close>: one task per path of the set
  \<^verbatim>\<open>all_paths\<close>, each result appended as its task completes. \<open>paths\<close> lists the
  paths in completion order; \<^verbatim>\<open>future.result()\<close> raises again what the task
  raised.
\<close>

fun probe_all :: "library \<Rightarrow> string \<Rightarrow> string list \<Rightarrow> py_error + probe_result list" where
  "probe_all lib base_url [] = Inr []"
| "probe_all lib base_url (p # ps) =
     (case test_route lib base_url p of
        Inl e \<Rightarrow> Inl e
      | Inr r \<Rightarrow>
          (case probe_all lib base_url ps of
             Inl e \<Rightarrow> Inl e
           | Inr rs \<Rightarrow> Inr (r # rs)))"


section \<open>test\_routes.py: analysis\<close>

text \<open>
  \<^verbatim>\<open>length_count\<close> and \<^verbatim>\<open>non_404_pages\<close> are \<^verbatim>\<open>defaultdict\<close>s: a missing
  key reads as \<open>0\<close>, respectively as the empty list. Both are association lists in
  insertion order.
\<close>

definition get_default :: "'v \<Rightarrow> ('k \<times> 'v) list \<Rightarrow> 'k \<Rightarrow> 'v" where
  "get_default d m k = (case map_of m k of None \<Rightarrow> d | Some v \<Rightarrow> v)"

definition length_count_of :: "probe_result list \<Rightarrow> (int \<times> int) list" where
  "length_count_of results =
     fold (\<lambda>result length_count.
             AList.update (content_length result)
               (get_default 0 length_count (content_length result) + 1) length_count)
       results []"

definition unique_lengths_of :: "probe_result list \<Rightarrow> int set" where
  "unique_lengths_of results =
     set (map fst (filter (\<lambda>(len, count). 1 \<le> count \<and> count \<le> 5) (length_count_of results)))"

definition unique_pages_of :: "probe_result list \<Rightarrow> probe_result list" where
  "unique_pages_of results =
     sort_key content_length
       (filter (\<lambda>result. content_length result \<in> unique_lengths_of results) results)"

definition non_404_pages_of :: "probe_result list \<Rightarrow> (int \<times> probe_result list) list" where
  "non_404_pages_of results =
     fold (\<lambda>result non_404_pages.
             if status_code result \<noteq> 404 then
               AList.update (status_code result)
                 (get_default [] non_404_pages (status_code result) @ [result]) non_404_pages
             else non_404_pages)
       results []"

definition analyze_results ::
  "probe_result list \<Rightarrow> probe_result list \<times> (int \<times> probe_result list) list" where
  "analyze_results results = (unique_pages_of results, non_404_pages_of results)"


section \<open>Predicates used in the statements\<close>

text \<open>A path has no two slashes in a row.\<close>

fun no_double_slash :: "string \<Rightarrow> bool" where
  "no_double_slash (a # b # cs) =
     (\<not> (a = CHR ''/'' \<and> b = CHR ''/'') \<and> no_double_slash (b # cs))"
| "no_double_slash cs = True"


text \<open>
  The dictionary \<^verbatim>\<open>unique_routes\<close> is keyed by the path of the route it stores,
  and no key occurs twice.
\<close>

definition keyed_by_path :: "route_dict \<Rightarrow> bool" where
  "keyed_by_path ur \<longleftrightarrow> distinct (map fst ur) \<and> list_all (\<lambda>(k, r). path r = k) ur"

text \<open>A source name contains the separator \<^verbatim>\<open>', '\<close> of the joined source list.\<close>

fun has_comma_space :: "string \<Rightarrow> bool" where
  "has_comma_space (c # d # ds) =
     ((c = CHR '','' \<and> d = CHR '' '') \<or> has_comma_space (d # ds))"
| "has_comma_space cs = False"

text \<open>The sources of the candidates whose normalised path is \<open>k\<close>.\<close>

definition sources_of :: "route list \<Rightarrow> string \<Rightarrow> string set" where
  "sources_of cs k = source_file ` {c \<in> set cs. normalize_path (path c) = k}"

text \<open>
  After the candidates \<open>cs\<close>, every stored route lists exactly the sources of its
  path, sorted and joined, and a path without a stored route has no source.
\<close>

definition sources_joined :: "route list \<Rightarrow> route_dict \<Rightarrow> bool" where
  "sources_joined cs ur \<longleftrightarrow>
     (\<forall>k. case map_of ur k of
            None \<Rightarrow> sources_of cs k = {}
          | Some r \<Rightarrow>
              sources_of cs k \<noteq> {} \<and>
              source_file r = join_comma_space (sorted_list_of_set (sources_of cs k)))"


text \<open>How often a content length occurs among the results.\<close>

definition occurrences :: "probe_result list \<Rightarrow> int \<Rightarrow> nat" where
  "occurrences results len = length (filter (\<lambda>r. content_length r = len) results)"

text \<open>The bodies of the counting and of the grouping iteration of \<^verbatim>\<open>analyze_results\<close>.\<close>

definition count_step :: "probe_result \<Rightarrow> (int \<times> int) list \<Rightarrow> (int \<times> int) list" where
  "count_step result length_count =
     AList.update (content_length result)
       (get_default 0 length_count (content_length result) + 1) length_count"

definition group_step ::
  "probe_result \<Rightarrow> (int \<times> probe_result list) list \<Rightarrow> (int \<times> probe_result list) list" where
  "group_step result non_404_pages =
     (if status_code result \<noteq> 404 then
        AList.update (status_code result)
          (get_default [] non_404_pages (status_code result) @ [result]) non_404_pages
      else non_404_pages)"

text \<open>Nine successful results with the content lengths of the clustering example.\<close>

definition clustering_example :: "probe_result list" where
  "clustering_example =
     map (\<lambda>(u, len). \<lparr>url = u, status_code = 200, content_length = len, response_time = 0,
                       error = None\<rparr>)
       [(''/a'', 100), (''/b'', 100), (''/c'', 100), (''/d'', 100), (''/e'', 100),
        (''/f'', 100), (''/g'', 42), (''/h'', 42), (''/i'', 7)]"


section \<open>A library for concrete runs\<close>

text \<open>
  \<^verbatim>\<open>urllib.parse.urljoin\<close> parses both of its arguments with \<^verbatim>\<open>urlsplit\<close>
  unless one of them is empty. \<^verbatim>\<open>urlsplit\<close> takes a leading scheme off (a letter,
  then letters, digits, \<^verbatim>\<open>+\<close>, \<^verbatim>\<open>-\<close> or \<^verbatim>\<open>.\<close>, up to the first colon);
  when the rest begins with two slashes, the network location is the text up to the
  next \<^verbatim>\<open>/\<close>, \<^verbatim>\<open>?\<close> or \<^verbatim>\<open>#\<close>, and a network location with a bracket that
  is not closed, or closed and not opened, raises
  \<^verbatim>\<open>ValueError("Invalid IPv6 URL")\<close>.

  \<open>urljoin_bracket_check\<close> has this one check and nothing else of the library: the
  library raises on more inputs (it deletes tabs and line ends before it looks for the
  network location, and it refuses a bracketed host that is no address), and the URL
  returned otherwise is left to the parameter \<open>resolve\<close>. It stands for
  \<^verbatim>\<open>urljoin\<close> only at the calls made in the section on probing: the bases
  \<^verbatim>\<open>https://x.test/\<close> and \<^verbatim>\<open>http://[::1/\<close> with the references
  \<^verbatim>\<open>login\<close>, \<^verbatim>\<open>logout\<close> and \<^verbatim>\<open>http://[\<close>.
\<close>

definition alpha :: "char \<Rightarrow> bool" where
  "alpha c \<longleftrightarrow> (CHR ''a'' \<le> c \<and> c \<le> CHR ''z'') \<or> (CHR ''A'' \<le> c \<and> c \<le> CHR ''Z'')"

definition scheme_char :: "char \<Rightarrow> bool" where
  "scheme_char c \<longleftrightarrow> alnum c \<or> c \<in> set ''+-.''"

definition strip_scheme :: "string \<Rightarrow> string" where
  "strip_scheme u =
     (let i = length (takeWhile (\<lambda>c. c \<noteq> CHR '':'') u)
      in if 0 < i \<and> i < length u \<and> alpha (hd u) \<and> list_all scheme_char (take i u)
         then drop (Suc i) u else u)"

definition netloc_of :: "string \<Rightarrow> string" where
  "netloc_of u =
     (let rest = strip_scheme u
      in if take 2 rest = ''//'' then takeWhile (\<lambda>c. c \<notin> set ''/?#'') (drop 2 rest) else [])"

definition invalid_ipv6 :: "string \<Rightarrow> bool" where
  "invalid_ipv6 netloc \<longleftrightarrow>
     (CHR ''['' \<in> set netloc \<and> CHR '']'' \<notin> set netloc)
     \<or> (CHR '']'' \<in> set netloc \<and> CHR ''['' \<notin> set netloc)"

definition urljoin_bracket_check ::
  "(string \<Rightarrow> string \<Rightarrow> string) \<Rightarrow> string \<Rightarrow> string \<Rightarrow> py_error + string" where
  "urljoin_bracket_check resolve base u =
     (if base = [] then Inr u
      else if u = [] then Inr base
      else if invalid_ipv6 (netloc_of base) \<or> invalid_ipv6 (netloc_of u)
        then Inl (ValueError ''Invalid IPv6 URL'')
      else Inr (resolve base u))"

text \<open>
  A library whose every request times out. Its \<open>resolve\<close> appends the reference to
  the base. That is what \<^verbatim>\<open>urljoin\<close> returns for a base that ends with a slash
  and a plain relative path such as \<^verbatim>\<open>login\<close>, the only kind of reference it
  is used with below; for a reference with dot segments or with a scheme the library
  returns something else.
\<close>

definition timeout_library :: library where
  "timeout_library =
     \<lparr>urljoin = urljoin_bracket_check (\<lambda>base u. base @ u),
      requests_get = (\<lambda>u. Inl (RequestException ''Read timed out.'')),
      int_of_str = (\<lambda>h. Inl (ValueError ''invalid literal for int()''))\<rparr>"


section \<open>The extractor and network schemes\<close>

text \<open>
  A rule with one group never adds a path that begins with a network scheme: the
  branch for one group tests the prefix before it calls the filter.
\<close>

lemma add_match_single_no_scheme:
  assumes "add_match relative_path route_type [g] routes = Inr routes'"
    and "\<forall>r \<in> set routes. \<not> list_ex (startswith (path r)) scheme_prefixes"
  shows "\<forall>r \<in> set routes'. \<not> list_ex (startswith (path r)) scheme_prefixes"
  using assms
  by (auto simp: add_match_def is_valid_route_def split: option.splits if_splits sum.splits)

text \<open>
  A rule with two groups adds every path the filter accepts; no prefix is tested.
\<close>

lemma add_match_named_follows_filter:
  "add_match relative_path route_type [route_name, Some p] routes =
     Inr (if is_valid_route (Some p) = Inr True
          then routes @ [\<lparr>rtype = route_type, name = Some route_name, path = p,
                           source_file = forward_slashes relative_path\<rparr>]
          else routes)"
  by (simp add: add_match_def is_valid_route_def)

text \<open>
  C1 (every emitted candidate has a path without a network scheme, for rules with one
  group and with two). The branch for two groups calls the filter only, and the filter
  accepts an absolute URL whose last segment has no extension: on the source text
  \<^verbatim>\<open>name: 'x', path: 'http://example.com/api'\<close> the extractor returns one
  candidate, and its path begins with \<^verbatim>\<open>http://\<close>.
\<close>

theorem extract_named_route_keeps_scheme_path:
  "extract_routes_from_js named_url_matches named_url_text ''js/app.js'' =
     Inr [\<lparr>rtype = VueRoute, name = Some (Some ''x''), path = ''http://example.com/api'',
           source_file = ''js/app.js''\<rparr>]
   \<and> startswith ''http://example.com/api'' ''http://''"
  by code_simp


section \<open>The validity filter on degenerate input\<close>

text \<open>
  C2, as stated (the filter returns a verdict for the empty string, for
  \<^verbatim>\<open>None\<close> and for garbage), fails at \<^verbatim>\<open>None\<close>: the filter raises
  \<^verbatim>\<open>TypeError\<close>.
\<close>

theorem is_valid_route_None_raises:
  "is_valid_route None = Inl (TypeError none_not_iterable)"
  by (simp add: is_valid_route_def)

text \<open>
  C2, amended: for every text, the empty string and garbage included, the filter
  returns a verdict and raises nothing; the verdict for the empty string is
  \<open>False\<close>. For \<^verbatim>\<open>None\<close> the filter raises \<^verbatim>\<open>TypeError\<close>. In the branch
  for one group the caller drops \<^verbatim>\<open>None\<close> and the empty string before the
  filter is called, so a match with one group never raises, whatever its group is.
\<close>

theorem is_valid_route_total_on_text:
  "(\<exists>verdict. is_valid_route (Some s) = Inr verdict)
   \<and> is_valid_route (Some []) = Inr False
   \<and> is_valid_route None = Inl (TypeError none_not_iterable)
   \<and> add_match relative_path route_type [None] routes = Inr routes
   \<and> add_match relative_path route_type [Some []] routes = Inr routes
   \<and> (\<exists>routes'. add_match relative_path route_type [g] routes = Inr routes')"
proof -
  have "\<exists>routes'. add_match relative_path route_type [g] routes = Inr routes'"
    by (cases g) (simp_all add: add_match_def is_valid_route_def)
  then show ?thesis
    by (simp add: is_valid_route_def add_match_def invalid_paths_def)
qed

theorem is_valid_route_total_on_text_witness:
  "is_valid_route (Some ''<<garbage??>>'') = Inr True
   \<and> is_valid_route (Some []) = Inr False
   \<and> add_match ''a.js'' VueRoute [None] [] = Inr []
   \<and> add_match ''a.js'' VueRoute [Some ''<<garbage??>>''] []
       = Inr [\<lparr>rtype = VueRoute, name = None, path = ''<<garbage??>>'', source_file = ''a.js''\<rparr>]"
proof -
  have garbage: "is_valid_route (Some ''<<garbage??>>'') = Inr True" by code_simp
  have added: "add_match ''a.js'' VueRoute [Some ''<<garbage??>>''] []
       = Inr [\<lparr>rtype = VueRoute, name = None, path = ''<<garbage??>>'', source_file = ''a.js''\<rparr>]"
    by code_simp
  show ?thesis
    using is_valid_route_total_on_text
      [of "''<<garbage??>>''" "''a.js''" VueRoute "[]" "Some ''<<garbage??>>''"]
      garbage added
    by simp
qed


section \<open>Path normalisation\<close>

lemma collapse_slashes_hd:
  "collapse_slashes cs \<noteq> [] \<Longrightarrow> cs \<noteq> [] \<and> hd (collapse_slashes cs) = hd cs"
  by (cases cs) auto

lemma collapse_slashes_Nil: "collapse_slashes cs = [] \<longleftrightarrow> cs = []"
  by (cases cs) auto

lemma no_double_slash_collapse: "no_double_slash (collapse_slashes cs)"
proof (induction cs rule: collapse_slashes.induct)
  case 1
  then show ?case by simp
next
  case (2 c cs)
  show ?case
  proof (cases "c = CHR ''/''")
    case True
    define r where "r = dropWhile (\<lambda>d. d = CHR ''/'') cs"
    have ih: "no_double_slash (collapse_slashes r)"
      using 2(1) True unfolding r_def by simp
    have unfold: "collapse_slashes (c # cs) = CHR ''/'' # collapse_slashes r"
      using True unfolding r_def by simp
    show ?thesis
    proof (cases "collapse_slashes r")
      case Nil
      then show ?thesis unfolding unfold by simp
    next
      case (Cons x xs)
      then have "r \<noteq> []" by (auto simp: collapse_slashes_Nil)
      then have "hd r \<noteq> CHR ''/''" unfolding r_def using hd_dropWhile by blast
      moreover have "x = hd r" using collapse_slashes_hd[of r] Cons by simp
      ultimately have "x \<noteq> CHR ''/''" by simp
      moreover have "no_double_slash (x # xs)" using ih Cons by simp
      ultimately show ?thesis unfolding unfold Cons by simp
    qed
  next
    case False
    have unfold: "collapse_slashes (c # cs) = c # collapse_slashes cs"
      using False by simp
    have ih: "no_double_slash (collapse_slashes cs)" using 2(2) False by simp
    show ?thesis
    proof (cases "collapse_slashes cs")
      case Nil
      then show ?thesis unfolding unfold by simp
    next
      case (Cons x xs)
      then show ?thesis using ih False unfolding unfold by simp
    qed
  qed
qed

lemma collapse_slashes_id: "no_double_slash cs \<Longrightarrow> collapse_slashes cs = cs"
proof (induction cs rule: no_double_slash.induct)
  case (1 a b cs)
  then show ?case by (cases "b = CHR ''/''") auto
qed auto

lemma no_double_slash_butlast: "no_double_slash cs \<Longrightarrow> no_double_slash (butlast cs)"
  by (induction cs rule: no_double_slash.induct) (auto split: if_splits)

lemma no_double_slash_snoc:
  "no_double_slash (cs @ [CHR ''/'']) \<Longrightarrow> cs \<noteq> [] \<Longrightarrow> last cs \<noteq> CHR ''/''"
  by (induction cs rule: no_double_slash.induct) (auto split: if_splits)

lemma endswith_slash: "endswith s ''/'' \<longleftrightarrow> s \<noteq> [] \<and> last s = CHR ''/''"
proof (cases s rule: rev_cases)
  case Nil
  then show ?thesis by (simp add: endswith_def)
next
  case (snoc ys y)
  then show ?thesis by (auto simp: endswith_def)
qed

lemma rstrip_snoc:
  "cs \<noteq> [] \<Longrightarrow> last cs \<noteq> CHR ''/'' \<Longrightarrow> rstrip CHR ''/'' (cs @ [CHR ''/'']) = cs"
  by (cases cs rule: rev_cases) (auto simp: rstrip_def)

lemma normalize_path_cases:
  "normalize_path p =
     (if length (collapse_slashes p) > 1 \<and> last (collapse_slashes p) = CHR ''/''
      then butlast (collapse_slashes p) else collapse_slashes p)"
proof (cases "collapse_slashes p" rule: rev_cases)
  case Nil
  then show ?thesis by (simp add: normalize_path_def endswith_slash)
next
  case (snoc ys y)
  show ?thesis
  proof (cases "ys \<noteq> [] \<and> y = CHR ''/''")
    case True
    have "no_double_slash (ys @ [CHR ''/''])"
      using no_double_slash_collapse[of p] snoc True by simp
    then have "last ys \<noteq> CHR ''/''" using no_double_slash_snoc True by blast
    then show ?thesis using snoc True
      by (simp add: normalize_path_def endswith_slash rstrip_snoc Let_def)
  next
    case False
    then show ?thesis using snoc
      by (auto simp: normalize_path_def endswith_slash Let_def)
  qed
qed

lemma no_double_slash_normalize: "no_double_slash (normalize_path p)"
  by (simp add: normalize_path_cases no_double_slash_collapse no_double_slash_butlast)

lemma normalize_path_fixed:
  assumes "no_double_slash p" and "p = ''/'' \<or> \<not> endswith p ''/''"
  shows "normalize_path p = p"
  using assms by (auto simp: normalize_path_cases collapse_slashes_id endswith_slash)

lemma normalize_path_trailing:
  "normalize_path p = ''/'' \<or> \<not> endswith (normalize_path p) ''/''"
proof (cases "collapse_slashes p" rule: rev_cases)
  case Nil
  then show ?thesis by (simp add: normalize_path_cases endswith_slash)
next
  case (snoc ys y)
  show ?thesis
  proof (cases "ys \<noteq> [] \<and> y = CHR ''/''")
    case True
    have "no_double_slash (ys @ [CHR ''/''])"
      using no_double_slash_collapse[of p] snoc True by simp
    then have "last ys \<noteq> CHR ''/''" using no_double_slash_snoc True by blast
    then show ?thesis using snoc True
      by (simp add: normalize_path_cases endswith_slash)
  next
    case False
    then show ?thesis using snoc
      by (auto simp: normalize_path_cases endswith_slash)
  qed
qed

lemma normalize_path_idem: "normalize_path (normalize_path p) = normalize_path p"
  by (rule normalize_path_fixed[OF no_double_slash_normalize normalize_path_trailing])

lemma filter_collapse:
  "filter (\<lambda>c. c \<noteq> CHR ''/'') (collapse_slashes p) = filter (\<lambda>c. c \<noteq> CHR ''/'') p"
proof (induction p rule: collapse_slashes.induct)
  case (2 c cs)
  have "filter (\<lambda>c. c \<noteq> CHR ''/'') (dropWhile (\<lambda>d. d = CHR ''/'') cs) = filter (\<lambda>c. c \<noteq> CHR ''/'') cs"
    by (induction cs) auto
  then show ?case using 2 by auto
qed simp

lemma collapse_double:
  "collapse_slashes (xs @ ''//'' @ ys) = collapse_slashes (xs @ ''/'' @ ys)"
proof (induction xs rule: collapse_slashes.induct)
  case 1
  then show ?case by simp
next
  case (2 c cs)
  let ?P = "\<lambda>d. d = CHR ''/''"
  show ?case
  proof (cases "c = CHR ''/''")
    case slash: True
    show ?thesis
    proof (cases "\<forall>x\<in>set cs. x = CHR ''/''")
      case True
      then have "dropWhile ?P (cs @ ''//'' @ ys) = dropWhile ?P (''//'' @ ys)"
        and "dropWhile ?P (cs @ ''/'' @ ys) = dropWhile ?P (''/'' @ ys)"
        by (simp_all add: dropWhile_append2)
      then show ?thesis using slash by simp
    next
      case False
      then obtain x where x: "x \<in> set cs" "\<not> ?P x" by blast
      have "dropWhile ?P (cs @ ''//'' @ ys) = dropWhile ?P cs @ ''//'' @ ys"
        and "dropWhile ?P (cs @ ''/'' @ ys) = dropWhile ?P cs @ ''/'' @ ys"
        using x by (simp_all add: dropWhile_append1)
      then show ?thesis using slash 2(1) by simp
    qed
  next
    case False
    then show ?thesis using 2(2) by simp
  qed
qed

lemma last_dropWhile_nonempty:
  assumes "dropWhile P xs \<noteq> []"
  shows "last (dropWhile P xs) = last xs"
proof -
  have "last (takeWhile P xs @ dropWhile P xs) = last (dropWhile P xs)"
    using assms by (rule last_appendR)
  then show ?thesis by simp
qed

lemma collapse_slashes_snoc:
  "p \<noteq> [] \<Longrightarrow> last p \<noteq> CHR ''/'' \<Longrightarrow> collapse_slashes (p @ ''/'') = collapse_slashes p @ ''/''"
proof (induction p rule: collapse_slashes.induct)
  case 1
  then show ?case by simp
next
  case (2 c cs)
  let ?P = "\<lambda>d. d = CHR ''/''"
  show ?case
  proof (cases "c = CHR ''/''")
    case slash: True
    then have cs: "cs \<noteq> []" "last cs \<noteq> CHR ''/''" using 2(3,4) by (auto split: if_splits)
    then have mem: "last cs \<in> set cs" by simp
    have dw: "dropWhile ?P (cs @ ''/'') = dropWhile ?P cs @ ''/''"
      using mem cs(2) by (simp add: dropWhile_append1)
    have ne: "dropWhile ?P cs \<noteq> []" using cs(2) mem by (auto simp: dropWhile_eq_Nil_conv)
    have "last (dropWhile ?P cs) \<noteq> CHR ''/''"
      using last_dropWhile_nonempty[OF ne] cs(2) by simp
    then have "collapse_slashes (dropWhile ?P cs @ ''/'') = collapse_slashes (dropWhile ?P cs) @ ''/''"
      using 2(1) slash ne by blast
    then show ?thesis using slash dw by simp
  next
    case False
    show ?thesis
    proof (cases "cs = []")
      case True
      then show ?thesis using False by simp
    next
      case ne: False
      then have "last cs \<noteq> CHR ''/''" using 2(4) by simp
      then have "collapse_slashes (cs @ ''/'') = collapse_slashes cs @ ''/''"
        using 2(2) False ne by blast
      then show ?thesis using False by simp
    qed
  qed
qed

lemma last_collapse_slashes: "p \<noteq> [] \<Longrightarrow> last (collapse_slashes p) = last p"
proof (induction p rule: collapse_slashes.induct)
  case 1
  then show ?case by simp
next
  case (2 c cs)
  let ?P = "\<lambda>d. d = CHR ''/''"
  show ?case
  proof (cases "c = CHR ''/''")
    case slash: True
    have unfold: "collapse_slashes (c # cs) = CHR ''/'' # collapse_slashes (dropWhile ?P cs)"
      using slash by simp
    show ?thesis
    proof (cases "dropWhile ?P cs = []")
      case True
      then have all: "\<forall>x\<in>set cs. x = CHR ''/''" by (simp add: dropWhile_eq_Nil_conv)
      have "last (c # cs) = CHR ''/''"
      proof (cases cs rule: rev_cases)
        case Nil
        then show ?thesis using slash by simp
      next
        case (snoc ys y)
        then show ?thesis using all by simp
      qed
      moreover have "last (collapse_slashes (c # cs)) = CHR ''/''"
        unfolding unfold True by simp
      ultimately show ?thesis by simp
    next
      case False
      then have l: "last (dropWhile ?P cs) = last cs" by (rule last_dropWhile_nonempty)
      have cne: "cs \<noteq> []" using False by auto
      have "last (collapse_slashes (dropWhile ?P cs)) = last (dropWhile ?P cs)"
        using 2(1) slash False by blast
      moreover have "collapse_slashes (dropWhile ?P cs) \<noteq> []"
        using False by (simp add: collapse_slashes_Nil)
      ultimately show ?thesis unfolding unfold using l cne by simp
    qed
  next
    case False
    have unfold: "collapse_slashes (c # cs) = c # collapse_slashes cs"
      using False by simp
    show ?thesis
    proof (cases "cs = []")
      case True
      then show ?thesis by simp
    next
      case ne: False
      then have "last (collapse_slashes cs) = last cs" using 2(2) False by blast
      then show ?thesis unfolding unfold using ne by (simp add: collapse_slashes_Nil)
    qed
  qed
qed

lemma normalize_path_trailing_slash:
  assumes "p \<noteq> []"
  shows "normalize_path (p @ ''/'') = normalize_path p"
proof (cases "last p = CHR ''/''")
  case True
  have "p = butlast p @ [last p]" using assms by simp
  then have q: "p = butlast p @ ''/''" using True by simp
  have "collapse_slashes (butlast p @ ''//'' @ []) = collapse_slashes (butlast p @ ''/'' @ [])"
    by (rule collapse_double)
  then have "collapse_slashes ((butlast p @ ''/'') @ ''/'') = collapse_slashes (butlast p @ ''/'')"
    by simp
  then have "collapse_slashes (p @ ''/'') = collapse_slashes p"
    using q by simp
  then show ?thesis unfolding normalize_path_cases by simp
next
  case False
  have c: "collapse_slashes (p @ ''/'') = collapse_slashes p @ ''/''"
    using collapse_slashes_snoc assms False by blast
  have "collapse_slashes p \<noteq> []" using assms by (simp add: collapse_slashes_Nil)
  moreover have "last (collapse_slashes p) \<noteq> CHR ''/''"
    using last_collapse_slashes[OF assms] False by simp
  ultimately show ?thesis unfolding normalize_path_cases c by simp
qed

lemma normalize_path_double:
  "normalize_path (xs @ ''//'' @ ys) = normalize_path (xs @ ''/'' @ ys)"
  unfolding normalize_path_cases collapse_double ..

text \<open>
  C6: path normalisation collapses every run of slashes into one slash, strips a
  trailing slash unless the path is the root, and is idempotent. The result has no two
  slashes in a row and ends with a slash only when it is the root; a doubled slash and
  a trailing slash in the input make no difference to the result; a path that is
  already in this form is returned as it is.
\<close>

theorem normalize_path_idempotent:
  "normalize_path (normalize_path p) = normalize_path p
   \<and> no_double_slash (normalize_path p)
   \<and> (normalize_path p = ''/'' \<or> \<not> endswith (normalize_path p) ''/'')
   \<and> normalize_path (xs @ ''//'' @ ys) = normalize_path (xs @ ''/'' @ ys)
   \<and> (p \<noteq> [] \<longrightarrow> normalize_path (p @ ''/'') = normalize_path p)
   \<and> (no_double_slash p \<and> (p = ''/'' \<or> \<not> endswith p ''/'') \<longrightarrow> normalize_path p = p)"
  using normalize_path_idem no_double_slash_normalize normalize_path_trailing
    normalize_path_double normalize_path_trailing_slash normalize_path_fixed
  by blast

theorem normalize_path_idempotent_witness:
  "no_double_slash ''/a/b'' \<and> \<not> endswith ''/a/b'' ''/''
   \<and> normalize_path ''/a/b'' = ''/a/b''
   \<and> normalize_path ''/a/b/'' = ''/a/b''
   \<and> normalize_path ''/a//b/'' = ''/a/b''
   \<and> normalize_path (normalize_path ''/a/b'') = ''/a/b''"
  using normalize_path_idempotent [of "''/a/b''" "''/a''" "''b/''"]
  by code_simp


section \<open>The merged inventory\<close>

lemma path_merge_sources [simp]: "path (merge_sources ex s) = path ex"
  by (simp add: merge_sources_def Let_def)

lemma name_merge_sources [simp]: "name (merge_sources ex s) = name ex"
  by (simp add: merge_sources_def Let_def)

lemma path_merge_name [simp]: "path (merge_name ex r) = path ex"
  by (simp add: merge_name_def split: option.splits)

lemma source_file_merge_name [simp]: "source_file (merge_name ex r) = source_file ex"
  by (simp add: merge_name_def split: option.splits)

lemma map_of_keyed:
  "keyed_by_path ur \<Longrightarrow> map_of ur k = Some r \<Longrightarrow> path r = k"
  by (auto simp: keyed_by_path_def list_all_iff dest!: map_of_SomeD)

lemma list_all_update:
  "list_all P al \<Longrightarrow> P (k, v) \<Longrightarrow> list_all P (AList.update k v al)"
  by (induction al) auto

lemma keyed_merge_route: "keyed_by_path ur \<Longrightarrow> keyed_by_path (merge_route r ur)"
proof -
  assume k: "keyed_by_path ur"
  show ?thesis
  proof (cases "map_of ur (normalize_path (path r))")
    case None
    then show ?thesis using k
      by (simp add: merge_route_def Let_def keyed_by_path_def distinct_update list_all_update)
  next
    case (Some ex)
    then have "path ex = normalize_path (path r)" using k map_of_keyed by blast
    then show ?thesis using k Some
      by (simp add: merge_route_def Let_def keyed_by_path_def distinct_update list_all_update)
  qed
qed

lemma keys_merge_route:
  "fst ` set (merge_route r ur) = insert (normalize_path (path r)) (fst ` set ur)"
  by (simp add: merge_route_def Let_def dom_update split: option.splits)

lemma keyed_fold: "keyed_by_path ur \<Longrightarrow> keyed_by_path (fold merge_route rs ur)"
  by (induction rs arbitrary: ur) (auto simp: keyed_merge_route)

lemma keys_fold:
  "fst ` set (fold merge_route rs ur) = normalize_path ` path ` set rs \<union> fst ` set ur"
  by (induction rs arbitrary: ur) (auto simp: keys_merge_route)

lemma unique_routes_of_concat:
  "unique_routes_of routes = fold merge_route (concat (map snd routes)) []"
proof -
  have "fold (\<lambda>file_routes unique_routes. fold merge_route file_routes unique_routes) rss ur
        = fold merge_route (concat rss) ur" for rss ur
    by (induction rss arbitrary: ur) auto
  then show ?thesis by (simp add: unique_routes_of_def)
qed

lemma keyed_unique_routes_of: "keyed_by_path (unique_routes_of routes)"
  unfolding unique_routes_of_concat by (rule keyed_fold) (simp add: keyed_by_path_def)

lemma keyed_paths: "keyed_by_path ur \<Longrightarrow> map path (map snd ur) = map fst ur"
  by (induction ur) (auto simp: keyed_by_path_def)

lemma paths_unique_routes_of:
  "map path (map snd (unique_routes_of routes)) = map fst (unique_routes_of routes)"
  by (rule keyed_paths[OF keyed_unique_routes_of])

lemma distinct_final_paths: "distinct (map path (final_routes routes))"
proof -
  have "distinct (map path (map snd (unique_routes_of routes)))"
    unfolding paths_unique_routes_of using keyed_unique_routes_of[of routes]
    by (simp add: keyed_by_path_def)
  then have "distinct (map snd (unique_routes_of routes))"
    and "inj_on path (set (map snd (unique_routes_of routes)))"
    by (simp_all only: distinct_map)
  then show ?thesis unfolding final_routes_def
    by (simp only: distinct_map distinct_sort set_sort) 
qed

lemma set_final_paths:
  "set (map path (final_routes routes)) = normalize_path ` path ` set (concat (map snd routes))"
proof -
  have "set (map path (final_routes routes)) = set (map path (map snd (unique_routes_of routes)))"
    unfolding final_routes_def by (simp only: set_map set_sort)
  also have "\<dots> = fst ` set (unique_routes_of routes)"
    unfolding paths_unique_routes_of by simp
  also have "\<dots> = normalize_path ` path ` set (concat (map snd routes))"
    unfolding unique_routes_of_concat keys_fold by simp
  finally show ?thesis .
qed

lemma sorted_final_paths: "sorted (map path (final_routes routes))"
  unfolding final_routes_def by (rule sorted_sort_key)

lemma strict_sorted_final_paths: "sorted_wrt (<) (map path (final_routes routes))"
  using sorted_final_paths distinct_final_paths strict_sorted_iff by blast

text \<open>
  C7: the inventory holds exactly one record for each normalised path of the
  candidates: the paths of the records are pairwise distinct and are exactly the
  normalised paths of the candidates. Two candidates with the paths \<^verbatim>\<open>/a//b/\<close>
  and \<^verbatim>\<open>/a/b\<close> give one record, with the path \<^verbatim>\<open>/a/b\<close>.
\<close>

theorem one_record_per_normalized_path:
  "distinct (map path (final_routes routes))
   \<and> set (map path (final_routes routes)) =
       normalize_path ` path ` set (concat (map snd routes))
   \<and> (path c1 = ''/a//b/'' \<and> path c2 = ''/a/b'' \<longrightarrow>
        map path (final_routes [(f, [c1]), (g, [c2])]) = [''/a/b'']
        \<and> map path (final_routes [(f, [c2, c1])]) = [''/a/b''])"
proof -
  have "path c1 = ''/a//b/'' \<and> path c2 = ''/a/b'' \<longrightarrow>
        map path (final_routes [(f, [c1]), (g, [c2])]) = [''/a/b'']
        \<and> map path (final_routes [(f, [c2, c1])]) = [''/a/b'']"
    by (simp add: final_routes_def unique_routes_of_def merge_route_def Let_def
        normalize_path_def endswith_def rstrip_def)
  then show ?thesis using distinct_final_paths set_final_paths by blast
qed

theorem one_record_per_normalized_path_witness:
  "map path (final_routes
     [(''a.js'', [\<lparr>rtype = VueRoute, name = None, path = ''/a//b/'', source_file = ''a.js''\<rparr>]),
      (''b.js'', [\<lparr>rtype = GeneralRoute, name = None, path = ''/a/b'', source_file = ''b.js''\<rparr>])])
   = [''/a/b'']"
  using one_record_per_normalized_path
    [of "[]" "\<lparr>rtype = VueRoute, name = None, path = ''/a//b/'', source_file = ''a.js''\<rparr>"
        "\<lparr>rtype = GeneralRoute, name = None, path = ''/a/b'', source_file = ''b.js''\<rparr>"
        "''a.js''" "''b.js''"]
  by code_simp

lemma mset_final_routes:
  "mset (final_routes routes) = mset (map snd (unique_routes_of routes))"
  by (simp add: final_routes_def)

text \<open>
  C9: the inventory is written sorted ascending by path. The list that is written is
  a rearrangement of the records of the inventory, no record lost and none added; its
  paths are the normalised paths of the candidates; and each record's path is less
  than or equal to the next one's. As the paths are distinct, the order is strict.
\<close>

theorem final_routes_sorted_by_path:
  "mset (final_routes routes) = mset (map snd (unique_routes_of routes))
   \<and> set (map path (final_routes routes)) =
       normalize_path ` path ` set (concat (map snd routes))
   \<and> sorted (map path (final_routes routes))
   \<and> sorted_wrt (<) (map path (final_routes routes))"
  using mset_final_routes set_final_paths sorted_final_paths strict_sorted_final_paths
  by blast

theorem final_routes_sorted_by_path_witness:
  "final_routes
     [(''a.js'', [\<lparr>rtype = VueRoute, name = None, path = ''/b'', source_file = ''a.js''\<rparr>,
                  \<lparr>rtype = VueRoute, name = None, path = ''/a/c'', source_file = ''a.js''\<rparr>,
                  \<lparr>rtype = VueRoute, name = None, path = ''/a'', source_file = ''a.js''\<rparr>])]
   = [\<lparr>rtype = VueRoute, name = None, path = ''/a'', source_file = ''a.js''\<rparr>,
      \<lparr>rtype = VueRoute, name = None, path = ''/a/c'', source_file = ''a.js''\<rparr>,
      \<lparr>rtype = VueRoute, name = None, path = ''/b'', source_file = ''a.js''\<rparr>]
   \<and> sorted [''/a'', ''/a/c'', ''/b'']"
proof -
  let ?routes =
    "[(''a.js'', [\<lparr>rtype = VueRoute, name = None, path = ''/b'', source_file = ''a.js''\<rparr>,
                  \<lparr>rtype = VueRoute, name = None, path = ''/a/c'', source_file = ''a.js''\<rparr>,
                  \<lparr>rtype = VueRoute, name = None, path = ''/a'', source_file = ''a.js''\<rparr>])]"
  have written: "final_routes ?routes
     = [\<lparr>rtype = VueRoute, name = None, path = ''/a'', source_file = ''a.js''\<rparr>,
        \<lparr>rtype = VueRoute, name = None, path = ''/a/c'', source_file = ''a.js''\<rparr>,
        \<lparr>rtype = VueRoute, name = None, path = ''/b'', source_file = ''a.js''\<rparr>]"
    by code_simp
  have "sorted (map path (final_routes ?routes))"
    using final_routes_sorted_by_path[of ?routes] by blast
  then show ?thesis unfolding written by simp
qed


section \<open>Names of merged records\<close>

lemma map_of_merge_route_same:
  "map_of (merge_route c ur) (normalize_path (path c)) =
     Some (case map_of ur (normalize_path (path c)) of
             None \<Rightarrow> c\<lparr>path := normalize_path (path c)\<rparr>
           | Some ex \<Rightarrow> merge_name (merge_sources ex (source_file c))
                          (c\<lparr>path := normalize_path (path c)\<rparr>))"
  by (simp add: merge_route_def Let_def update_conv' split: option.splits)

lemma map_of_merge_route_other:
  "k \<noteq> normalize_path (path c) \<Longrightarrow> map_of (merge_route c ur) k = map_of ur k"
  by (simp add: merge_route_def Let_def update_conv' split: option.splits)












section \<open>Sources of merged records\<close>

lemma split_single: "\<not> has_comma_space x \<Longrightarrow> split_comma_space x = [x]"
  by (induction x rule: split_comma_space.induct) auto

lemma split_append:
  "\<not> has_comma_space x \<Longrightarrow>
   split_comma_space (x @ CHR '','' # CHR '' '' # rest) = x # split_comma_space rest"
  by (induction x rule: split_comma_space.induct) auto

lemma split_join:
  "xs \<noteq> [] \<Longrightarrow> list_all (\<lambda>x. \<not> has_comma_space x) xs \<Longrightarrow>
   split_comma_space (join_comma_space xs) = xs"
proof (induction xs rule: join_comma_space.induct)
  case 1
  then show ?case by simp
next
  case (2 x)
  then show ?case by (simp add: split_single)
next
  case (3 x y ys)
  then show ?case by (simp add: split_append)
qed

lemma finite_sources_of [simp]: "finite (sources_of cs k)"
  by (simp add: sources_of_def)

lemma sources_of_snoc:
  "sources_of (cs @ [c]) k =
     (if normalize_path (path c) = k then insert (source_file c) (sources_of cs k)
      else sources_of cs k)"
  by (auto simp: sources_of_def)

lemma set_split_join_sorted:
  assumes "finite S" and "S \<noteq> {}" and "\<forall>s\<in>S. \<not> has_comma_space s"
  shows "set (split_comma_space (join_comma_space (sorted_list_of_set S))) = S"
proof -
  have "sorted_list_of_set S \<noteq> []" using assms by simp
  moreover have "list_all (\<lambda>x. \<not> has_comma_space x) (sorted_list_of_set S)"
    using assms by (simp add: list_all_iff)
  ultimately show ?thesis using assms(1) by (simp add: split_join)
qed

lemma sources_joined_step:
  assumes inv: "sources_joined cs ur"
    and free: "\<forall>c\<in>set (cs @ [c]). \<not> has_comma_space (source_file c)"
  shows "sources_joined (cs @ [c]) (merge_route c ur)"
  unfolding sources_joined_def
proof
  fix k
  let ?p = "normalize_path (path c)"
  let ?goal = "case map_of (merge_route c ur) k of
            None \<Rightarrow> sources_of (cs @ [c]) k = {}
          | Some r \<Rightarrow>
              sources_of (cs @ [c]) k \<noteq> {} \<and>
              source_file r = join_comma_space (sorted_list_of_set (sources_of (cs @ [c]) k))"
  have free_of: "\<forall>s\<in>sources_of cs k'. \<not> has_comma_space s" for k'
    using free by (auto simp: sources_of_def)
  have invk: "case map_of ur k' of
            None \<Rightarrow> sources_of cs k' = {}
          | Some r \<Rightarrow>
              sources_of cs k' \<noteq> {} \<and>
              source_file r = join_comma_space (sorted_list_of_set (sources_of cs k'))" for k'
    using inv unfolding sources_joined_def by blast
  show ?goal
  proof (cases "k = ?p")
    case False
    then have "map_of (merge_route c ur) k = map_of ur k"
      by (simp add: map_of_merge_route_other)
    moreover have "sources_of (cs @ [c]) k = sources_of cs k"
      using False by (simp add: sources_of_snoc)
    ultimately show ?thesis using invk[of k] by (auto split: option.splits)
  next
    case True
    show ?thesis
    proof (cases "map_of ur ?p")
      case None
      then have "sources_of cs ?p = {}" using invk[of ?p] by simp
      then show ?thesis using True None
        by (simp add: map_of_merge_route_same sources_of_snoc)
    next
      case (Some ex)
      then have ex: "sources_of cs ?p \<noteq> {}"
        "source_file ex = join_comma_space (sorted_list_of_set (sources_of cs ?p))"
        using invk[of ?p] by simp_all
      have S: "set (split_comma_space (source_file ex)) = sources_of cs ?p"
        unfolding ex(2) using set_split_join_sorted[OF _ ex(1) free_of] by simp
      have look: "map_of (merge_route c ur) k =
          Some (merge_name (merge_sources ex (source_file c)) (c\<lparr>path := ?p\<rparr>))"
        using True Some by (simp add: map_of_merge_route_same)
      show ?thesis
      proof (cases "source_file c \<in> sources_of cs ?p")
        case in_set: True
        then have "insert (source_file c) (sources_of cs ?p) = sources_of cs ?p" by auto
        then show ?thesis unfolding look using True S ex in_set
          by (simp add: sources_of_snoc merge_sources_def)
      next
        case False
        then show ?thesis unfolding look using True S ex
          by (simp add: sources_of_snoc merge_sources_def)
      qed
    qed
  qed
qed

lemma sources_joined_fold:
  assumes "sources_joined seen ur"
    and "\<forall>c\<in>set (seen @ cs). \<not> has_comma_space (source_file c)"
  shows "sources_joined (seen @ cs) (fold merge_route cs ur)"
  using assms
proof (induction cs arbitrary: seen ur)
  case Nil
  then show ?case by simp
next
  case (Cons c cs)
  have "sources_joined (seen @ [c]) (merge_route c ur)"
    using Cons.prems by (intro sources_joined_step) auto
  moreover have "\<forall>c\<in>set ((seen @ [c]) @ cs). \<not> has_comma_space (source_file c)"
    using Cons.prems(2) by simp
  ultimately have "sources_joined ((seen @ [c]) @ cs) (fold merge_route cs (merge_route c ur))"
    by (rule Cons.IH)
  then show ?case by simp
qed

lemma sources_joined_unique_routes_of:
  assumes "\<forall>c\<in>set (concat (map snd routes)). \<not> has_comma_space (source_file c)"
  shows "sources_joined (concat (map snd routes)) (unique_routes_of routes)"
proof -
  have "sources_joined [] []" by (simp add: sources_joined_def sources_of_def)
  then have "sources_joined ([] @ concat (map snd routes))
               (fold merge_route (concat (map snd routes)) [])"
    using assms by (intro sources_joined_fold) auto
  then show ?thesis by (simp add: unique_routes_of_concat)
qed

lemma final_routes_sources:
  assumes free: "\<forall>c\<in>set (concat (map snd routes)). \<not> has_comma_space (source_file c)"
    and r: "r \<in> set (final_routes routes)"
  shows "source_file r =
     join_comma_space (sorted_list_of_set (sources_of (concat (map snd routes)) (path r)))"
proof -
  from r obtain k where kr: "(k, r) \<in> set (unique_routes_of routes)"
    by (auto simp: final_routes_def)
  have keyed: "keyed_by_path (unique_routes_of routes)" by (rule keyed_unique_routes_of)
  then have "map_of (unique_routes_of routes) k = Some r"
    using kr by (simp add: keyed_by_path_def)
  moreover from this have "path r = k" using keyed map_of_keyed by blast
  ultimately show ?thesis
    using sources_joined_unique_routes_of[OF free]
    by (auto simp: sources_joined_def split: option.splits dest!: spec[of _ k])
qed

lemma sorted_pair: "sorted_list_of_set {''b.js'', ''a.js''} = [''a.js'', ''b.js'']"
  by code_simp

lemma sources_two_orders:
  assumes "normalize_path (path c1) = normalize_path (path c2)"
    and "source_file c1 = ''a.js''" and "source_file c2 = ''b.js''"
  shows "map source_file (final_routes [(f, [c1]), (g, [c2])]) = [''a.js, b.js'']"
    and "map source_file (final_routes [(f, [c2]), (g, [c1])]) = [''a.js, b.js'']"
    and "map source_file (final_routes [(f, [c1, c2, c1, c2])]) = [''a.js, b.js'']"
  using assms
  by (simp_all add: final_routes_def unique_routes_of_def merge_route_def Let_def
      merge_sources_def sorted_pair insert_commute)

text \<open>
  C8 (source merging is independent of the order, stored sorted, and without
  duplicates when a source contributes twice). The stored list is split at
  \<^verbatim>\<open>', '\<close> again at every merge, so a source name that contains \<^verbatim>\<open>', '\<close>
  is taken for two sources. The source name is the path of the file relative to the
  parent of the scanned directory: for the files \<^verbatim>\<open>a.js\<close> and \<^verbatim>\<open>b.js\<close> of a
  directory named \<^verbatim>\<open>site, v2\<close> the record lists
  \<^verbatim>\<open>site, site, v2/b.js, v2/a.js\<close> in one order and
  \<^verbatim>\<open>site, site, v2/a.js, v2/b.js\<close> in the other, and a source that contributes
  twice is listed twice.
\<close>

theorem sources_merge_depends_on_order:
  "map source_file (final_routes
     [(''a.js'', [\<lparr>rtype = VueRoute, name = None, path = ''/login'',
                    source_file = ''site, v2/a.js''\<rparr>]),
      (''b.js'', [\<lparr>rtype = VueRoute, name = None, path = ''/login'',
                    source_file = ''site, v2/b.js''\<rparr>])])
   = [''site, site, v2/b.js, v2/a.js'']
   \<and> map source_file (final_routes
     [(''b.js'', [\<lparr>rtype = VueRoute, name = None, path = ''/login'',
                    source_file = ''site, v2/b.js''\<rparr>]),
      (''a.js'', [\<lparr>rtype = VueRoute, name = None, path = ''/login'',
                    source_file = ''site, v2/a.js''\<rparr>])])
   = [''site, site, v2/a.js, v2/b.js'']
   \<and> map source_file (final_routes
     [(''a.js'', [\<lparr>rtype = VueRoute, name = None, path = ''/login'',
                    source_file = ''site, v2/a.js''\<rparr>,
                  \<lparr>rtype = GeneralRoute, name = None, path = ''/login'',
                    source_file = ''site, v2/a.js''\<rparr>])])
   = [''site, site, v2/a.js, v2/a.js'']"
  by code_simp

text \<open>
  Where no source name contains the separator, the merge does what is asked of it: for
  the sources \<^verbatim>\<open>a.js\<close> and \<^verbatim>\<open>b.js\<close> the record has \<^verbatim>\<open>a.js, b.js\<close> in
  either order, also when a source contributes twice, and every record lists exactly
  the sources of the candidates with its path, sorted and joined.
\<close>

theorem sources_union_sorted:
  "(normalize_path (path c1) = normalize_path (path c2)
      \<and> source_file c1 = ''a.js'' \<and> source_file c2 = ''b.js''
      \<longrightarrow> map source_file (final_routes [(f, [c1]), (g, [c2])]) = [''a.js, b.js'']
          \<and> map source_file (final_routes [(f, [c2]), (g, [c1])]) = [''a.js, b.js'']
          \<and> map source_file (final_routes [(f, [c1, c2, c1, c2])]) = [''a.js, b.js'']
          \<and> split_comma_space ''a.js, b.js'' = [''a.js'', ''b.js''])
   \<and> (list_all (\<lambda>c. \<not> has_comma_space (source_file c)) (concat (map snd routes))
        \<and> r \<in> set (final_routes routes)
      \<longrightarrow> source_file r =
            join_comma_space
              (sorted_list_of_set (sources_of (concat (map snd routes)) (path r))))"
proof -
  have "split_comma_space ''a.js, b.js'' = [''a.js'', ''b.js'']" by simp
  moreover have "list_all (\<lambda>c. \<not> has_comma_space (source_file c)) (concat (map snd routes))
        \<and> r \<in> set (final_routes routes)
      \<longrightarrow> source_file r =
            join_comma_space
              (sorted_list_of_set (sources_of (concat (map snd routes)) (path r)))"
    using final_routes_sources[of routes r] unfolding list_all_iff by blast
  ultimately show ?thesis
    using sources_two_orders(1,2)[of c1 c2 f g] sources_two_orders(3)[of c1 c2 f] by blast
qed

theorem sources_union_sorted_witness:
  "map source_file (final_routes
     [(''b.js'', [\<lparr>rtype = VueRoute, name = None, path = ''/login/'', source_file = ''b.js''\<rparr>]),
      (''a.js'', [\<lparr>rtype = VueRoute, name = None, path = ''/login'', source_file = ''a.js''\<rparr>])])
   = [''a.js, b.js'']"
  using sources_union_sorted
    [of "\<lparr>rtype = VueRoute, name = None, path = ''/login'', source_file = ''a.js''\<rparr>"
        "\<lparr>rtype = VueRoute, name = None, path = ''/login/'', source_file = ''b.js''\<rparr>"
        "''a.js''" "''b.js''"]
  by code_simp


section \<open>Analysis of the results\<close>

lemma length_count_of_fold: "length_count_of results = fold count_step results []"
  unfolding length_count_of_def count_step_def ..

lemma map_of_count_step:
  "map_of (count_step r lc) l =
     (if content_length r = l then Some (get_default 0 lc l + 1) else map_of lc l)"
  by (simp add: count_step_def update_conv')

lemma get_default_count_step:
  "get_default 0 (count_step r lc) l =
     (if content_length r = l then get_default 0 lc l + 1 else get_default 0 lc l)"
  by (simp add: get_default_def map_of_count_step)

lemma distinct_count_step: "distinct (map fst lc) \<Longrightarrow> distinct (map fst (count_step r lc))"
  by (simp add: count_step_def distinct_update)

lemma distinct_fold_count: "distinct (map fst lc) \<Longrightarrow> distinct (map fst (fold count_step rs lc))"
  by (induction rs arbitrary: lc) (auto simp: distinct_count_step)

lemma map_of_fold_count:
  "map_of (fold count_step rs lc) l =
     (if occurrences rs l = 0 then map_of lc l
      else Some (get_default 0 lc l + int (occurrences rs l)))"
proof (induction rs arbitrary: lc)
  case Nil
  then show ?case by (simp add: occurrences_def)
next
  case (Cons r rs)
  show ?case
    by (simp add: Cons.IH map_of_count_step get_default_count_step occurrences_def)
qed

lemma map_of_length_count_of:
  "map_of (length_count_of rs) l =
     (if occurrences rs l = 0 then None else Some (int (occurrences rs l)))"
  by (simp add: length_count_of_fold map_of_fold_count get_default_def)

lemma distinct_length_count_of: "distinct (map fst (length_count_of rs))"
  by (simp add: length_count_of_fold distinct_fold_count)

lemma unique_lengths_iff:
  "l \<in> unique_lengths_of rs \<longleftrightarrow> 1 \<le> occurrences rs l \<and> occurrences rs l \<le> 5"
proof -
  have "l \<in> unique_lengths_of rs \<longleftrightarrow>
        (\<exists>c. (l, c) \<in> set (length_count_of rs) \<and> 1 \<le> c \<and> c \<le> 5)"
    by (force simp: unique_lengths_of_def)
  also have "\<dots> \<longleftrightarrow> (\<exists>c. map_of (length_count_of rs) l = Some c \<and> 1 \<le> c \<and> c \<le> 5)"
    using distinct_length_count_of[of rs] by auto
  also have "\<dots> \<longleftrightarrow> 1 \<le> occurrences rs l \<and> occurrences rs l \<le> 5"
    by (auto simp: map_of_length_count_of)
  finally show ?thesis .
qed

lemma set_unique_pages:
  "set (unique_pages_of rs) = {r \<in> set rs. content_length r \<in> unique_lengths_of rs}"
  by (simp add: unique_pages_of_def)

lemma sorted_unique_pages: "sorted (map content_length (unique_pages_of rs))"
  unfolding unique_pages_of_def by (rule sorted_sort_key)

lemma stable_unique_pages:
  "filter (\<lambda>r. content_length r = l) (unique_pages_of rs) =
     (if l \<in> unique_lengths_of rs then filter (\<lambda>r. content_length r = l) rs else [])"
proof -
  have "filter (\<lambda>r. content_length r = l) (unique_pages_of rs) =
        filter (\<lambda>r. content_length r = l)
          (filter (\<lambda>r. content_length r \<in> unique_lengths_of rs) rs)"
    unfolding unique_pages_of_def by (rule sort_key_stable)
  also have "\<dots> = filter (\<lambda>r. content_length r = l \<and> l \<in> unique_lengths_of rs) rs"
    by (simp add: conj_commute cong: conj_cong)
  finally show ?thesis by simp
qed

lemma unique_pages_example:
  assumes "map content_length rs = [100, 100, 100, 100, 100, 100, 42, 42, 7]"
  shows "unique_pages_of rs = [rs ! 8, rs ! 6, rs ! 7]"
proof -
  from assms obtain r0 r1 r2 r3 r4 r5 r6 r7 r8 where
    rs: "rs = [r0, r1, r2, r3, r4, r5, r6, r7, r8]" and
    len: "content_length r0 = 100" "content_length r1 = 100" "content_length r2 = 100"
      "content_length r3 = 100" "content_length r4 = 100" "content_length r5 = 100"
      "content_length r6 = 42" "content_length r7 = 42" "content_length r8 = 7"
    by (auto simp: map_eq_Cons_conv)
  have "length_count_of rs = [(100, 6), (42, 2), (7, 1)]"
    unfolding rs by (simp add: length_count_of_def get_default_def len)
  then have "unique_lengths_of rs = {42, 7}"
    by (simp add: unique_lengths_of_def)
  then show ?thesis
    unfolding unique_pages_of_def by (simp add: rs len)
qed

text \<open>
  C3: a content length is interesting iff it occurs at least once and at most five
  times among all results; the unique pages are exactly the results with an interesting
  length, sorted ascending by length, results of equal length in their order of
  encounter. For the lengths 100 (six times), 42, 42, 7 the unique pages are the result
  of length 7 and the two of length 42, and no result of length 100.
\<close>

theorem unique_pages_are_rare_lengths_sorted:
  "(l \<in> unique_lengths_of rs \<longleftrightarrow> 1 \<le> occurrences rs l \<and> occurrences rs l \<le> 5)
   \<and> fst (analyze_results rs) = unique_pages_of rs
   \<and> set (unique_pages_of rs) = {r \<in> set rs. content_length r \<in> unique_lengths_of rs}
   \<and> sorted (map content_length (unique_pages_of rs))
   \<and> filter (\<lambda>r. content_length r = l) (unique_pages_of rs) =
       (if l \<in> unique_lengths_of rs then filter (\<lambda>r. content_length r = l) rs else [])
   \<and> (map content_length rs = [100, 100, 100, 100, 100, 100, 42, 42, 7]
        \<longrightarrow> unique_pages_of rs = [rs ! 8, rs ! 6, rs ! 7])"
  using unique_lengths_iff[of l rs] set_unique_pages[of rs] sorted_unique_pages[of rs]
    stable_unique_pages[of l rs] unique_pages_example[of rs]
  by (simp add: analyze_results_def)

theorem unique_pages_are_rare_lengths_sorted_witness:
  "map url (unique_pages_of clustering_example) = [''/i'', ''/g'', ''/h'']"
proof -
  have lens: "map content_length clustering_example = [100, 100, 100, 100, 100, 100, 42, 42, 7]"
    by (simp add: clustering_example_def)
  have "unique_pages_of clustering_example =
          [clustering_example ! 8, clustering_example ! 6, clustering_example ! 7]"
    using unique_pages_are_rare_lengths_sorted[of 42 clustering_example] lens by blast
  then show ?thesis by (simp add: clustering_example_def)
qed


section \<open>Failed probes in the analysis\<close>

lemma non_404_pages_of_fold: "non_404_pages_of results = fold group_step results []"
  unfolding non_404_pages_of_def group_step_def ..

lemma get_default_group_step:
  "get_default [] (group_step r m) k =
     (if status_code r = k \<and> k \<noteq> 404 then get_default [] m k @ [r] else get_default [] m k)"
  by (auto simp: group_step_def get_default_def update_conv')

lemma get_default_fold_group:
  "get_default [] (fold group_step rs m) k =
     (if k = 404 then get_default [] m k
      else get_default [] m k @ filter (\<lambda>r. status_code r = k) rs)"
  by (induction rs arbitrary: m) (auto simp: get_default_group_step)

lemma dom_group_step:
  "fst ` set (group_step r m) =
     (if status_code r \<noteq> 404 then insert (status_code r) (fst ` set m) else fst ` set m)"
  by (simp add: group_step_def dom_update)

lemma dom_fold_group:
  "fst ` set (fold group_step rs m) = {c \<in> status_code ` set rs. c \<noteq> 404} \<union> fst ` set m"
  by (induction rs arbitrary: m) (auto simp: dom_group_step)

lemma map_of_non_404_pages_of:
  "map_of (non_404_pages_of rs) k =
     (if k \<noteq> 404 \<and> k \<in> status_code ` set rs
      then Some (filter (\<lambda>r. status_code r = k) rs) else None)"
proof (cases "k \<in> fst ` set (non_404_pages_of rs)")
  case True
  then obtain v where v: "map_of (non_404_pages_of rs) k = Some v"
    by (metis domD dom_map_of_conv_image_fst)
  then have "get_default [] (non_404_pages_of rs) k = v" by (simp add: get_default_def)
  moreover have k: "k \<noteq> 404 \<and> k \<in> status_code ` set rs"
    using True by (auto simp: non_404_pages_of_fold dom_fold_group)
  moreover have "get_default [] (non_404_pages_of rs) k = filter (\<lambda>r. status_code r = k) rs"
    using k unfolding non_404_pages_of_fold get_default_fold_group
    by (simp add: get_default_def)
  ultimately show ?thesis using v by simp
next
  case False
  then have "map_of (non_404_pages_of rs) k = None"
    by (simp add: map_of_eq_None_iff)
  moreover have "\<not> (k \<noteq> 404 \<and> k \<in> status_code ` set rs)"
    using False by (auto simp: non_404_pages_of_fold dom_fold_group)
  ultimately show ?thesis by simp
qed

lemma failed_probe_is_analyzed:
  assumes "r \<in> set rs" and "status_code r = 0"
  shows "map_of (non_404_pages_of rs) 0 = Some (filter (\<lambda>x. status_code x = 0) rs)"
    and "r \<in> set (filter (\<lambda>x. status_code x = 0) rs)"
    and "map_of (length_count_of rs) (content_length r) =
           Some (int (occurrences rs (content_length r)))"
    and "1 \<le> occurrences rs (content_length r)"
proof -
  show "map_of (non_404_pages_of rs) 0 = Some (filter (\<lambda>x. status_code x = 0) rs)"
    using assms by (force simp: map_of_non_404_pages_of)
  show "r \<in> set (filter (\<lambda>x. status_code x = 0) rs)" using assms by simp
  have "filter (\<lambda>x. content_length x = content_length r) rs \<noteq> []"
    using assms(1) by (auto simp: filter_empty_conv)
  then show "1 \<le> occurrences rs (content_length r)"
    by (simp add: occurrences_def Suc_le_eq)
  then show "map_of (length_count_of rs) (content_length r) =
           Some (int (occurrences rs (content_length r)))"
    by (simp add: map_of_length_count_of)
qed

text \<open>
  C10: a failed probe has the status code 0 and the content length 0; every result
  with the status code 0 is in the list that the non-404 mapping holds under the key 0,
  and its content length is counted in the histogram like that of any other result.
\<close>

theorem failed_probes_are_analyzed:
  "status_code (failure_result u e) = 0 \<and> content_length (failure_result u e) = 0
   \<and> (r \<in> set rs \<and> status_code r = 0 \<longrightarrow>
        map_of (snd (analyze_results rs)) 0 = Some (filter (\<lambda>x. status_code x = 0) rs)
        \<and> r \<in> set (filter (\<lambda>x. status_code x = 0) rs)
        \<and> map_of (length_count_of rs) (content_length r) =
            Some (int (occurrences rs (content_length r)))
        \<and> 1 \<le> occurrences rs (content_length r))"
  using failed_probe_is_analyzed[of r rs]
  by (simp add: analyze_results_def failure_result_def)

theorem failed_probes_are_analyzed_witness:
  "map_of (snd (analyze_results
       (failure_result ''https://x.test/a'' (RequestException ''timed out'')
        # clustering_example))) 0
     = Some [failure_result ''https://x.test/a'' (RequestException ''timed out'')]
   \<and> map_of (length_count_of
       (failure_result ''https://x.test/a'' (RequestException ''timed out'')
        # clustering_example)) 0
     = Some 1"
proof -
  let ?r = "failure_result ''https://x.test/a'' (RequestException ''timed out'')"
  let ?rs = "?r # clustering_example"
  have hyp: "?r \<in> set ?rs \<and> status_code ?r = 0" by (simp add: failure_result_def)
  have f: "filter (\<lambda>x. status_code x = 0) ?rs = [?r]"
    by (simp add: failure_result_def clustering_example_def)
  have c: "content_length ?r = 0" by (simp add: failure_result_def)
  have o: "int (occurrences ?rs 0) = 1"
    by (simp add: occurrences_def failure_result_def clustering_example_def)
  show ?thesis
    using failed_probes_are_analyzed[of "''https://x.test/a''" "RequestException ''timed out''" ?r ?rs]
      hyp f c o
    by simp
qed


section \<open>Probing\<close>

lemma test_route_after_join:
  assumes "urljoin lib (rstrip CHR ''/'' base_url @ ''/'') (lstrip CHR ''/'' p) = Inr u"
  shows "\<exists>r. test_route lib base_url p = Inr r \<and> url r = u"
    and "requests_get lib u = Inl e \<Longrightarrow>
         test_route lib base_url p =
           Inr \<lparr>url = u, status_code = 0, content_length = 0, response_time = 0,
                error = Some (str_of_error e)\<rparr>"
  using assms
  by (auto simp: test_route_def failure_result_def split: sum.splits option.splits)

lemma test_route_bad_length_header:
  assumes "urljoin lib (rstrip CHR ''/'' base_url @ ''/'') (lstrip CHR ''/'' p) = Inr u"
    and "requests_get lib u = Inr resp" and "resp_content_length_header resp = Some h"
    and "int_of_str lib h = Inl e"
  shows "test_route lib base_url p =
           Inr \<lparr>url = u, status_code = 0, content_length = 0, response_time = 0,
                error = Some (str_of_error e)\<rparr>"
  using assms by (simp add: test_route_def failure_result_def)

lemma probe_all_length:
  assumes "\<forall>p\<in>set paths. \<exists>u. urljoin lib (rstrip CHR ''/'' base_url @ ''/'') (lstrip CHR ''/'' p) = Inr u"
  shows "\<exists>rs. probe_all lib base_url paths = Inr rs \<and> length rs = length paths"
  using assms
proof (induction paths)
  case Nil
  then show ?case by simp
next
  case (Cons p ps)
  then obtain u where "urljoin lib (rstrip CHR ''/'' base_url @ ''/'') (lstrip CHR ''/'' p) = Inr u"
    by auto
  then obtain r where "test_route lib base_url p = Inr r"
    using test_route_after_join(1) by blast
  moreover obtain rs where "probe_all lib base_url ps = Inr rs" "length rs = length ps"
    using Cons by auto
  ultimately show ?case by simp
qed

text \<open>
  C4 (probing never raises: every base and every path give exactly one result, and
  \<open>N\<close> paths give \<open>N\<close> results). The handler of \<^verbatim>\<open>test_route\<close> catches every
  exception of the \<^verbatim>\<open>try\<close> block, but the URL is joined before the
  \<^verbatim>\<open>try\<close> statement: for the path \<^verbatim>\<open>http://[\<close>, and for the base
  \<^verbatim>\<open>http://[::1\<close> with its bracket left open, \<^verbatim>\<open>urljoin\<close> raises
  \<^verbatim>\<open>ValueError\<close> and the probe returns no result. \<^verbatim>\<open>main\<close> reads
  \<^verbatim>\<open>future.result()\<close> unguarded, so one such path loses the results of all
  paths.
\<close>

theorem test_route_raises_on_bad_url:
  "test_route timeout_library ''https://x.test'' ''http://[''
     = Inl (ValueError ''Invalid IPv6 URL'')
   \<and> test_route timeout_library ''http://[::1'' ''/login''
     = Inl (ValueError ''Invalid IPv6 URL'')
   \<and> probe_all timeout_library ''https://x.test'' [''/login'', ''http://['']
     = Inl (ValueError ''Invalid IPv6 URL'')"
  by code_simp

text \<open>
  What the \<^verbatim>\<open>try\<close> statement does absorb: whenever the URL of a probe can be
  joined, the probe returns exactly one result and raises nothing; when the request
  raises (a timeout, a refused connection, a DNS or a TLS failure), and likewise when
  the length header is no number, the result has the status code 0, the content length
  0, the response time 0 and the text of the exception as its error; and probing \<open>N\<close>
  paths whose URLs can be joined returns \<open>N\<close> results.
\<close>

theorem test_route_total_after_join:
  "(urljoin lib (rstrip CHR ''/'' base_url @ ''/'') (lstrip CHR ''/'' p) = Inr u \<longrightarrow>
      (\<exists>r. test_route lib base_url p = Inr r \<and> url r = u)
      \<and> (requests_get lib u = Inl e \<longrightarrow>
           test_route lib base_url p =
             Inr \<lparr>url = u, status_code = 0, content_length = 0, response_time = 0,
                  error = Some (str_of_error e)\<rparr>)
      \<and> (requests_get lib u = Inr resp \<and> resp_content_length_header resp = Some h
             \<and> int_of_str lib h = Inl e \<longrightarrow>
           test_route lib base_url p =
             Inr \<lparr>url = u, status_code = 0, content_length = 0, response_time = 0,
                  error = Some (str_of_error e)\<rparr>))
   \<and> ((\<forall>q\<in>set paths.
          \<exists>v. urljoin lib (rstrip CHR ''/'' base_url @ ''/'') (lstrip CHR ''/'' q) = Inr v)
        \<longrightarrow> (\<exists>rs. probe_all lib base_url paths = Inr rs \<and> length rs = length paths))"
  using test_route_after_join(1)[of lib base_url p u]
    test_route_after_join(2)[of lib base_url p u e]
    test_route_bad_length_header[of lib base_url p u resp h e]
    probe_all_length[of paths lib base_url]
  by blast

theorem test_route_total_after_join_witness:
  "test_route timeout_library ''https://x.test/'' ''/login''
     = Inr \<lparr>url = ''https://x.test/login'', status_code = 0, content_length = 0,
            response_time = 0, error = Some ''Read timed out.''\<rparr>
   \<and> (\<exists>rs. probe_all timeout_library ''https://x.test/'' [''/login'', ''/logout''] = Inr rs
           \<and> length rs = 2)"
proof -
  have j1: "urljoin timeout_library (rstrip CHR ''/'' ''https://x.test/'' @ ''/'')
              (lstrip CHR ''/'' ''/login'') = Inr ''https://x.test/login''"
    by code_simp
  have j2: "urljoin timeout_library (rstrip CHR ''/'' ''https://x.test/'' @ ''/'')
              (lstrip CHR ''/'' ''/logout'') = Inr ''https://x.test/logout''"
    by code_simp
  have g: "requests_get timeout_library ''https://x.test/login''
             = Inl (RequestException ''Read timed out.'')"
    by (simp add: timeout_library_def)
  have all: "\<forall>q\<in>set [''/login'', ''/logout''].
          \<exists>v. urljoin timeout_library (rstrip CHR ''/'' ''https://x.test/'' @ ''/'')
                 (lstrip CHR ''/'' q) = Inr v"
    using j1 j2 by simp
  note inst = test_route_total_after_join
      [of timeout_library "''https://x.test/''" "''/login''" "''https://x.test/login''"
          "RequestException ''Read timed out.''" _ _ "[''/login'', ''/logout'']"]
  have one: "test_route timeout_library ''https://x.test/'' ''/login''
     = Inr \<lparr>url = ''https://x.test/login'', status_code = 0, content_length = 0,
            response_time = 0, error = Some (str_of_error (RequestException ''Read timed out.''))\<rparr>"
    using inst j1 g by blast
  have many: "\<exists>rs. probe_all timeout_library ''https://x.test/'' [''/login'', ''/logout''] = Inr rs
           \<and> length rs = length [''/login'', ''/logout'']"
    using inst all by blast
  have "length [''/login'', ''/logout''] = 2" by simp
  then show ?thesis using one many by (auto simp del: probe_all.simps)
qed

end
